theory Spec2Isabelle
  imports Main
begin

section \<open>The KeyValues parser of install\_linux.py\<close>

text \<open>
  The development embeds the class \<^verbatim>\<open>KeyValues\<close> of \<^verbatim>\<open>src/install_linux.py\<close>:
  its two compiled regular expressions, the private recursive method \<^verbatim>\<open>__parse\<close>
  and the public method \<^verbatim>\<open>parse\<close>.

  A Python \<^verbatim>\<open>str\<close> is a \<^typ>\<open>string\<close>, one \<^typ>\<open>char\<close> per code point, so the
  development covers the code points below 256. The parser tells apart only the two
  quote characters, the two braces, the line feed and the white space characters.
\<close>

subsection \<open>Characters\<close>

definition dquote :: char where
  "dquote = CHR 0x22"

definition squote :: char where
  "squote = CHR 0x27"

definition newline :: char where
  "newline = CHR 0x0A"

text \<open>The character class \<^verbatim>\<open>['"]\<close>.\<close>

definition is_quote :: "char \<Rightarrow> bool" where
  "is_quote c = (c = squote \<or> c = dquote)"

text \<open>
  The class \<^verbatim>\<open>\s\<close> of a \<^verbatim>\<open>str\<close> pattern, which is also what \<^verbatim>\<open>str.strip()\<close>
  removes: the code points 9 to 13, 28 to 32, 133 and 160 (those below 256 for which
  \<^verbatim>\<open>str.isspace\<close> holds).
\<close>

definition is_space :: "char \<Rightarrow> bool" where
  "is_space c =
     (let n = (of_char c :: nat)
      in (9 \<le> n \<and> n \<le> 13) \<or> (28 \<le> n \<and> n \<le> 32) \<or> n = 133 \<or> n = 160)"

subsection \<open>The regular expressions\<close>

text \<open>
  \<^verbatim>\<open>((?!\1).)*\<close> with group 1 equal to \<open>q\<close>: every repetition consumes one
  character that is neither \<open>q\<close> (the negative lookahead) nor a line feed (the
  dot, compiled without \<^verbatim>\<open>DOTALL\<close>). The repetition is greedy and is always
  followed by \<^verbatim>\<open>\1\<close>, which no shorter repetition can satisfy, so the text it
  captures is the longest run of such characters.
\<close>

definition in_token :: "char \<Rightarrow> char \<Rightarrow> bool" where
  "in_token q c = (c \<noteq> q \<and> c \<noteq> newline)"

text \<open>\<^verbatim>\<open>(?!.)\<close>: no character other than a line feed follows.\<close>

definition no_char_follows :: "string \<Rightarrow> bool" where
  "no_char_follows s = (case s of [] \<Rightarrow> True | c # _ \<Rightarrow> c = newline)"

text \<open>
  \<^verbatim>\<open>re.match\<close> of the pattern \<^verbatim>\<open>"key"\<close>,
  \<^verbatim>\<open>(['"])(?P<key>((?!\1).)*)\1(?!.)\<close>, at the start of \<open>s\<close>; the result is
  the group \<^verbatim>\<open>key\<close>. The flag \<^verbatim>\<open>re.I\<close> changes nothing: no other character
  folds to a quote, and the captured text is not folded.
\<close>

definition match_key :: "string \<Rightarrow> string option" where
  "match_key s =
     (case s of
        [] \<Rightarrow> None
      | q # r1 \<Rightarrow>
          if is_quote q then
            (case dropWhile (in_token q) r1 of
               [] \<Rightarrow> None
             | c # r2 \<Rightarrow>
                 if c = q \<and> no_char_follows r2
                 then Some (takeWhile (in_token q) r1)
                 else None)
          else None)"

text \<open>
  \<^verbatim>\<open>re.match\<close> of the pattern \<^verbatim>\<open>"key_value"\<close>,
  \<^verbatim>\<open>(['"])(?P<key>((?!\1).)*)\1(\s+|)['"](?P<value>((?!\1).)*)\1\<close>; the result is
  the pair of the groups \<^verbatim>\<open>key\<close> and \<^verbatim>\<open>value\<close>. The value opens with either
  quote character, but its text excludes, and it is closed by, group 1: the quote
  character that opened the key. Nothing anchors the end of the match.
\<close>

definition match_key_value :: "string \<Rightarrow> (string \<times> string) option" where
  "match_key_value s =
     (case s of
        [] \<Rightarrow> None
      | q # r1 \<Rightarrow>
          if is_quote q then
            (case dropWhile (in_token q) r1 of
               [] \<Rightarrow> None
             | c # r2 \<Rightarrow>
                 if c = q then
                   (case dropWhile is_space r2 of
                      [] \<Rightarrow> None
                    | opening # r3 \<Rightarrow>
                        if is_quote opening then
                          (case dropWhile (in_token q) r3 of
                             [] \<Rightarrow> None
                           | closing # _ \<Rightarrow>
                               if closing = q
                               then Some (takeWhile (in_token q) r1, takeWhile (in_token q) r3)
                               else None)
                        else None)
                 else None)
          else None)"

text \<open>
  \<^verbatim>\<open>re.search\<close>: the match at the leftmost position of \<open>s\<close> at which the pattern
  matches, the position after the last character included.
\<close>

fun re_search :: "(string \<Rightarrow> 'a option) \<Rightarrow> string \<Rightarrow> 'a option" where
  "re_search m [] = m []"
| "re_search m (c # cs) =
     (case m (c # cs) of Some r \<Rightarrow> Some r | None \<Rightarrow> re_search m cs)"

text \<open>\<^verbatim>\<open>str.startswith\<close>.\<close>

definition startswith :: "string \<Rightarrow> string \<Rightarrow> bool" where
  "startswith s p = (take (length p) s = p)"

subsection \<open>Values\<close>

text \<open>
  What a mapper holds: a \<^verbatim>\<open>str\<close> or a nested mapper. A mapper is an
  \<^verbatim>\<open>OrderedDict\<close> (the default \<^verbatim>\<open>mapper_type\<close>, which no caller changes): its
  items in insertion order, no key twice.
\<close>

datatype pyval = Str string | Dict "(string \<times> pyval) list"

type_synonym mapper = "(string \<times> pyval) list"

text \<open>
  \<^verbatim>\<open>_mapper[k] = v\<close>: a key that is present keeps its position and takes the new value,
  a new key goes to the end.
\<close>

fun setitem :: "mapper \<Rightarrow> string \<Rightarrow> pyval \<Rightarrow> mapper" where
  "setitem [] k v = [(k, v)]"
| "setitem ((k', v') # m) k v =
     (if k' = k then (k', v) # m else (k', v') # setitem m k v)"

text \<open>
  What \<^verbatim>\<open>__parse\<close> returns: the bare mapper at the end of the input
  (\<^verbatim>\<open>return _mapper\<close>), or the 2-tuple of the mapper and the next index at a closing
  brace (\<^verbatim>\<open>return _mapper, i + 1\<close>).
\<close>

datatype ret = Mapper mapper | Tuple mapper nat

text \<open>
  The exceptions that leave \<^verbatim>\<open>__parse\<close> and \<^verbatim>\<open>parse\<close>: the
  \<^verbatim>\<open>Exception\<close> of line 232 with the line number of its message, the \<^verbatim>\<open>ValueError\<close>
  and \<^verbatim>\<open>TypeError\<close> of unpacking a bare mapper, the \<^verbatim>\<open>AttributeError\<close> of calling
  \<^verbatim>\<open>group\<close> on the \<^verbatim>\<open>None\<close> of a failed search, the \<^verbatim>\<open>OSError\<close> of
  \<^verbatim>\<open>open\<close> and the \<^verbatim>\<open>UnicodeDecodeError\<close> of \<^verbatim>\<open>readlines\<close>.
\<close>

datatype error =
    BraceWithoutKey nat
  | ValueError
  | TypeError
  | AttributeError
  | OSError
  | UnicodeDecodeError

subsection \<open>The key modifier\<close>

text \<open>
  \<^verbatim>\<open>__key_modifier(self, key, key_modifier)\<close>: the argument, or else the attribute of
  the object, is applied to the key when there is one.
\<close>

definition key_modifier :: "(string \<Rightarrow> string) option \<Rightarrow> string \<Rightarrow> (string \<Rightarrow> string) option \<Rightarrow> string" where
  "key_modifier self_key_modifier key km =
     (case (case km of Some f \<Rightarrow> Some f | None \<Rightarrow> self_key_modifier) of
        Some f \<Rightarrow> f key
      | None \<Rightarrow> key)"

subsection \<open>The parser\<close>

text \<open>
  The \<^verbatim>\<open>while\<close> loop of \<^verbatim>\<open>__parse\<close>, with its variables \<open>i\<close>, \<open>key\<close>
  (\<open>None\<close> for \<^verbatim>\<open>False\<close>) and \<open>_mapper\<close> as arguments. \<^verbatim>\<open>not key\<close> holds for
  \<^verbatim>\<open>False\<close> and for the empty string. The nested call starts a frame of its own at
  \<open>i + 1\<close>, and the assignment \<^verbatim>\<open>_mapper[key], i = ...\<close> unpacks what it returns: a
  2-tuple gives the nested mapper and the next index; a bare mapper is iterated over
  its keys, which raises \<^verbatim>\<open>ValueError\<close> unless there are exactly two, and then
  \<open>i\<close> is a \<^verbatim>\<open>str\<close> and the test of the loop raises \<^verbatim>\<open>TypeError\<close>. The only
  \<^verbatim>\<open>IndexError\<close> is that of \<^verbatim>\<open>lines[i+1]\<close> on the last line; the handler of the
  frame passes and the frame returns its bare mapper.
\<close>

function while_loop ::
  "(string \<Rightarrow> string) option \<Rightarrow> (string \<Rightarrow> string) option \<Rightarrow> string list \<Rightarrow>
   nat \<Rightarrow> string option \<Rightarrow> mapper \<Rightarrow> error + ret" where
  "while_loop self_km km lines i key mapper =
     (if i < length lines then
        if startswith (lines ! i) ''{'' then
          (case key of
             None \<Rightarrow> Inl (BraceWithoutKey (i + 1))
           | Some k \<Rightarrow>
               if k = [] then Inl (BraceWithoutKey (i + 1))
               else
                 (case while_loop self_km km lines (i + 1) None [] of
                    Inl e \<Rightarrow> Inl e
                  | Inr (Tuple nested j) \<Rightarrow>
                      while_loop self_km km lines j key (setitem mapper k (Dict nested))
                  | Inr (Mapper nested) \<Rightarrow>
                      if length nested = 2 then Inl TypeError else Inl ValueError))
        else if startswith (lines ! i) ''}'' then Inr (Tuple mapper (i + 1))
        else
          (case match_key (lines ! i) of
             Some _ \<Rightarrow>
               (case re_search match_key (lines ! i) of
                  None \<Rightarrow> Inl AttributeError
                | Some k \<Rightarrow>
                    while_loop self_km km lines (i + 1)
                      (Some (key_modifier self_km k km)) mapper)
           | None \<Rightarrow>
               (case match_key_value (lines ! i) of
                  Some _ \<Rightarrow>
                    (case re_search match_key_value (lines ! i) of
                       None \<Rightarrow> Inl AttributeError
                     | Some (k, v) \<Rightarrow>
                         while_loop self_km km lines (i + 1) key
                           (setitem mapper (key_modifier self_km k km) (Str v)))
                | None \<Rightarrow>
                    if i + 1 < length lines then
                      (case match_key_value (lines ! i @ lines ! (i + 1)) of
                         Some _ \<Rightarrow>
                           (case re_search match_key_value
                                   (lines ! i @ '' '' @ lines ! (i + 1)) of
                              None \<Rightarrow> Inl AttributeError
                            | Some (k, v) \<Rightarrow>
                                while_loop self_km km lines (i + 1) key
                                  (setitem mapper (key_modifier self_km k km) (Str v)))
                       | None \<Rightarrow> while_loop self_km km lines (i + 1) key mapper)
                    else Inr (Mapper mapper)))
      else Inr (Mapper mapper))"
  by pat_completeness auto

text \<open>
  The index a frame returns at a closing brace lies beyond the index the frame started
  at; the loop of the calling frame goes on from there, so it terminates.
\<close>

lemma while_loop_cursor:
  "while_loop_dom (self_km, km, lines, i, key, mapper) \<Longrightarrow>
   while_loop self_km km lines i key mapper = Inr (Tuple m j) \<Longrightarrow> i < j"
proof (induction self_km km lines i key mapper arbitrary: m j rule: while_loop.pinduct)
  case (1 self_km km lines i key mapper)
  note eq = "1.prems"[unfolded while_loop.psimps[OF "1.hyps"]]
  show ?case
  proof (cases "i < length lines")
    case False
    with eq show ?thesis by simp
  next
    case inb: True
    show ?thesis
    proof (cases "startswith (lines ! i) ''{''")
      case ob: True
      show ?thesis
      proof (cases key)
        case None
        with eq inb ob show ?thesis by simp
      next
        case (Some k)
        show ?thesis
        proof (cases "k = []")
          case True
          with eq inb ob Some show ?thesis by simp
        next
          case ne: False
          show ?thesis
          proof (cases "while_loop self_km km lines (i + 1) None []")
            case (Inl e)
            with eq inb ob Some ne show ?thesis by simp
          next
            case (Inr r)
            show ?thesis
            proof (cases r)
              case (Mapper nested)
              with eq inb ob Some ne Inr show ?thesis by (simp split: if_splits)
            next
              case (Tuple nested j')
              have "i + 1 < j'"
                using "1.IH"(1)[OF inb ob Some ne] Inr Tuple by simp
              moreover have "j' < j"
                using "1.IH"(2)[OF inb ob Some ne Inr Tuple] eq inb ob Some ne Inr Tuple by simp
              ultimately show ?thesis by simp
            qed
          qed
        qed
      qed
    next
      case nob: False
      show ?thesis
      proof (cases "startswith (lines ! i) ''}''")
        case True
        with eq inb nob show ?thesis by simp
      next
        case ncb: False
        show ?thesis
        proof (cases "match_key (lines ! i)")
          case mk: (Some a)
          show ?thesis
          proof (cases "re_search match_key (lines ! i)")
            case None
            with eq inb nob ncb mk show ?thesis by simp
          next
            case (Some k)
            with eq inb nob ncb mk "1.IH"(6)[OF inb nob ncb mk Some] show ?thesis
              by (simp add: less_imp_le_nat Suc_lessD)
          qed
        next
          case mk: None
          show ?thesis
          proof (cases "match_key_value (lines ! i)")
            case mkv: (Some a)
            show ?thesis
            proof (cases "re_search match_key_value (lines ! i)")
              case None
              with eq inb nob ncb mk mkv show ?thesis by simp
            next
              case (Some kv)
              obtain k v where kv: "kv = (k, v)" by (cases kv)
              from eq inb nob ncb mk mkv Some kv
                "1.IH"(5)[OF inb nob ncb mk mkv Some kv[symmetric]]
              show ?thesis by (simp add: Suc_lessD)
            qed
          next
            case mkv: None
            show ?thesis
            proof (cases "i + 1 < length lines")
              case False
              with eq inb nob ncb mk mkv show ?thesis by simp
            next
              case nxt: True
              show ?thesis
              proof (cases "match_key_value (lines ! i @ lines ! (i + 1))")
                case two: None
                from eq inb nob ncb mk mkv nxt two
                  "1.IH"(3)[OF inb nob ncb mk mkv nxt two]
                show ?thesis by (simp add: Suc_lessD)
              next
                case two: (Some a)
                show ?thesis
                proof (cases "re_search match_key_value (lines ! i @ '' '' @ lines ! (i + 1))")
                  case None
                  with eq inb nob ncb mk mkv nxt two show ?thesis by simp
                next
                  case (Some kv)
                  obtain k v where kv: "kv = (k, v)" by (cases kv)
                  from eq inb nob ncb mk mkv nxt two Some kv
                    "1.IH"(4)[OF inb nob ncb mk mkv nxt two Some kv[symmetric]]
                  show ?thesis by (simp add: Suc_lessD)
                qed
              qed
            qed
          qed
        qed
      qed
    qed
  qed
qed


termination while_loop
  by (relation "measure (\<lambda>(self_km, km, lines, i, key, mapper). length lines - i)")
    (auto dest: while_loop_cursor)

declare while_loop.simps [simp del]

text \<open>
  \<^verbatim>\<open>__parse(self, lines, mapper_type, i=0, key_modifier=None)\<close>: a new frame, with
  \<^verbatim>\<open>key = False\<close> and an empty mapper.
\<close>

definition KeyValues__parse ::
  "(string \<Rightarrow> string) option \<Rightarrow> string list \<Rightarrow> nat \<Rightarrow> (string \<Rightarrow> string) option \<Rightarrow> error + ret" where
  "KeyValues__parse self_km lines i km = while_loop self_km km lines i None []"

text \<open>\<^verbatim>\<open>str.strip()\<close>: the white space at both ends is removed.\<close>

definition strip :: "string \<Rightarrow> string" where
  "strip s = rev (dropWhile is_space (rev (dropWhile is_space s)))"

text \<open>
  \<^verbatim>\<open>parse(self, filename, encoding, mapper_type, key_modifier)\<close>. What
  \<^verbatim>\<open>open\<close> and \<^verbatim>\<open>f.readlines()\<close> do with a name and an encoding is the
  parameter \<open>files\<close>: the exception raised (\<^verbatim>\<open>OSError\<close> by \<^verbatim>\<open>open\<close> for a file
  that cannot be opened, \<^verbatim>\<open>UnicodeDecodeError\<close> by \<^verbatim>\<open>readlines\<close> for bytes that
  the encoding does not decode), which leaves \<^verbatim>\<open>parse\<close> as it is, or the list of
  the lines read. The result is what the method stores in \<^verbatim>\<open>self.__mapper\<close>.
\<close>

definition parse ::
  "(string \<Rightarrow> string \<Rightarrow> error + string list) \<Rightarrow> (string \<Rightarrow> string) option \<Rightarrow> string \<Rightarrow>
   string \<Rightarrow> (string \<Rightarrow> string) option \<Rightarrow> error + ret" where
  "parse files self_km filename encoding km =
     (case files filename encoding of
        Inl e \<Rightarrow> Inl e
      | Inr raw \<Rightarrow>
          KeyValues__parse self_km (map strip raw) 0
            (case km of Some f \<Rightarrow> Some f | None \<Rightarrow> self_km))"

text \<open>A token written between double quotes, for the examples.\<close>

definition quoted :: "string \<Rightarrow> string" where
  "quoted s = dquote # s @ [dquote]"

text \<open>
  \<open>spaced r r'\<close>: the string \<open>r'\<close> is \<open>r\<close>, or \<open>r\<close> with one space put in
  somewhere. It relates the two strings the two-line branch builds from the same two
  lines: \<^verbatim>\<open>lines[i] + lines[i+1]\<close> for the test and
  \<^verbatim>\<open>lines[i] + " " + lines[i+1]\<close> for the search.
\<close>

definition spaced :: "string \<Rightarrow> string \<Rightarrow> bool" where
  "spaced r r' = (r' = r \<or> (\<exists>xs ys. r = xs @ ys \<and> r' = xs @ CHR '' '' # ys))"

subsection \<open>The states of the loop\<close>

text \<open>
  The state at the head of the loop: the index \<open>i\<close>, the variable \<open>key\<close> and the
  mapper of the frame.
\<close>

type_synonym loop_state = "nat \<times> string option \<times> mapper"

text \<open>
  \<open>visits self_km km lines st st'\<close>: the run of the loop from the state \<open>st\<close> comes
  to the head of the loop in the state \<open>st'\<close>, in the frame of \<open>st\<close> or in a frame
  nested in it. There is one rule for every way in which the loop of \<^verbatim>\<open>__parse\<close>
  goes on: into the nested frame of an opening brace, on from the index a nested frame
  returned, and on to the next line after a key, a pair on one line, a pair on two
  lines, and a line that is dropped.
\<close>

inductive visits ::
  "(string \<Rightarrow> string) option \<Rightarrow> (string \<Rightarrow> string) option \<Rightarrow> string list \<Rightarrow>
   loop_state \<Rightarrow> loop_state \<Rightarrow> bool"
  for self_km km lines where
  here: "visits self_km km lines st st"
| nested: "i < length lines \<Longrightarrow> startswith (lines ! i) ''{'' \<Longrightarrow> key = Some k \<Longrightarrow> k \<noteq> [] \<Longrightarrow>
    visits self_km km lines (i + 1, None, []) st \<Longrightarrow>
    visits self_km km lines (i, key, mapper) st"
| after_nested: "i < length lines \<Longrightarrow> startswith (lines ! i) ''{'' \<Longrightarrow> key = Some k \<Longrightarrow> k \<noteq> [] \<Longrightarrow>
    while_loop self_km km lines (i + 1) None [] = Inr (Tuple nested j) \<Longrightarrow>
    visits self_km km lines (j, key, setitem mapper k (Dict nested)) st \<Longrightarrow>
    visits self_km km lines (i, key, mapper) st"
| after_key: "i < length lines \<Longrightarrow> \<not> startswith (lines ! i) ''{'' \<Longrightarrow>
    \<not> startswith (lines ! i) ''}'' \<Longrightarrow> match_key (lines ! i) = Some k \<Longrightarrow>
    visits self_km km lines (i + 1, Some (key_modifier self_km k km), mapper) st \<Longrightarrow>
    visits self_km km lines (i, key, mapper) st"
| after_key_value: "i < length lines \<Longrightarrow> \<not> startswith (lines ! i) ''{'' \<Longrightarrow>
    \<not> startswith (lines ! i) ''}'' \<Longrightarrow> match_key (lines ! i) = None \<Longrightarrow>
    match_key_value (lines ! i) = Some (k, v) \<Longrightarrow>
    visits self_km km lines
      (i + 1, key, setitem mapper (key_modifier self_km k km) (Str v)) st \<Longrightarrow>
    visits self_km km lines (i, key, mapper) st"
| after_two_lines: "i < length lines \<Longrightarrow> \<not> startswith (lines ! i) ''{'' \<Longrightarrow>
    \<not> startswith (lines ! i) ''}'' \<Longrightarrow> match_key (lines ! i) = None \<Longrightarrow>
    match_key_value (lines ! i) = None \<Longrightarrow> i + 1 < length lines \<Longrightarrow>
    match_key_value (lines ! i @ lines ! (i + 1)) = Some r \<Longrightarrow>
    re_search match_key_value (lines ! i @ '' '' @ lines ! (i + 1)) = Some (k, v) \<Longrightarrow>
    visits self_km km lines
      (i + 1, key, setitem mapper (key_modifier self_km k km) (Str v)) st \<Longrightarrow>
    visits self_km km lines (i, key, mapper) st"
| after_skip: "i < length lines \<Longrightarrow> \<not> startswith (lines ! i) ''{'' \<Longrightarrow>
    \<not> startswith (lines ! i) ''}'' \<Longrightarrow> match_key (lines ! i) = None \<Longrightarrow>
    match_key_value (lines ! i) = None \<Longrightarrow> i + 1 < length lines \<Longrightarrow>
    match_key_value (lines ! i @ lines ! (i + 1)) = None \<Longrightarrow>
    visits self_km km lines (i + 1, key, mapper) st \<Longrightarrow>
    visits self_km km lines (i, key, mapper) st"

subsection \<open>Mappers without a repeated key\<close>



section \<open>Properties\<close>

subsection \<open>The patterns\<close>

text \<open>A pattern that matches at the start is found there by the search.\<close>

lemma re_search_match: "m s = Some r \<Longrightarrow> re_search m s = Some r"
  by (cases s) simp_all

text \<open>The quote characters are neither white space nor line feeds nor braces.\<close>

lemma quote_not_space: "is_quote c \<Longrightarrow> \<not> is_space c"
  by (auto simp: is_quote_def is_space_def squote_def dquote_def)

lemma quote_not_newline: "is_quote c \<Longrightarrow> c \<noteq> newline"
  by (auto simp: is_quote_def newline_def squote_def dquote_def)

lemma space_in_token: "is_quote q \<Longrightarrow> in_token q (CHR '' '')"
  by (auto simp: is_quote_def in_token_def newline_def squote_def dquote_def)

lemma quote_not_brace: "is_quote q \<Longrightarrow> \<not> startswith (q # s) ''{'' \<and> \<not> startswith (q # s) ''}''"
  by (auto simp: is_quote_def startswith_def squote_def dquote_def)

lemma dropWhile_token: "list_all (in_token q) k \<Longrightarrow> dropWhile (in_token q) (k @ q # rest) = q # rest"
  by (induction k) (simp_all add: in_token_def)

lemma takeWhile_token: "list_all (in_token q) k \<Longrightarrow> takeWhile (in_token q) (k @ q # rest) = k"
  by (induction k) (simp_all add: in_token_def)

lemma dropWhile_token_all: "list_all (in_token q) k \<Longrightarrow> dropWhile (in_token q) k = []"
  by (induction k) simp_all

lemma dropWhile_spaces:
  "list_all is_space ws \<Longrightarrow> \<not> is_space c \<Longrightarrow> dropWhile is_space (ws @ c # rest) = c # rest"
  by (induction ws) simp_all

lemma match_key_token:
  "is_quote q \<Longrightarrow> list_all (in_token q) k \<Longrightarrow> no_char_follows rest \<Longrightarrow>
   match_key (q # k @ q # rest) = Some k"
  by (simp add: match_key_def dropWhile_token takeWhile_token)

lemma match_key_more:
  "is_quote q \<Longrightarrow> list_all (in_token q) k \<Longrightarrow> \<not> no_char_follows rest \<Longrightarrow>
   match_key (q # k @ q # rest) = None"
  by (simp add: match_key_def dropWhile_token takeWhile_token)

lemma match_key_value_tokens:
  "is_quote q \<Longrightarrow> is_quote q2 \<Longrightarrow> list_all (in_token q) k \<Longrightarrow> list_all is_space ws \<Longrightarrow>
   list_all (in_token q) v \<Longrightarrow>
   match_key_value (q # k @ q # ws @ q2 # v @ q # rest) = Some (k, v)"
  by (simp add: match_key_value_def dropWhile_token takeWhile_token dropWhile_spaces
      quote_not_space)

lemma match_key_value_open:
  "is_quote q \<Longrightarrow> is_quote q2 \<Longrightarrow> list_all (in_token q) k \<Longrightarrow> list_all is_space ws \<Longrightarrow>
   list_all (in_token q) v \<Longrightarrow>
   match_key_value (q # k @ q # ws @ q2 # v) = None"
  by (simp add: match_key_value_def dropWhile_token takeWhile_token dropWhile_spaces
      quote_not_space dropWhile_token_all)

lemma follows_spaces_quote:
  "is_quote q2 \<Longrightarrow> newline \<notin> set ws \<Longrightarrow> \<not> no_char_follows (ws @ q2 # rest)"
  by (cases ws) (auto simp: no_char_follows_def quote_not_newline)

text \<open>
  One more space changes no test of the pattern for pairs, unless it stands before the
  opening quote: where the two lines put end to end match, the search in the two lines
  joined by a space finds a match.
\<close>

lemma dropWhile_insert_space:
  "P (CHR '' '') \<Longrightarrow> dropWhile P (xs @ ys) = c # t \<Longrightarrow>
   \<exists>t'. dropWhile P (xs @ CHR '' '' # ys) = c # t' \<and> spaced t t'"
proof (induction xs)
  case Nil
  then show ?case by (auto simp: spaced_def)
next
  case (Cons x xs)
  show ?case
  proof (cases "P x")
    case True
    with Cons show ?thesis by simp
  next
    case False
    with Cons.prems have "c = x" "t = xs @ ys" by simp_all
    with False show ?thesis by (auto simp: spaced_def)
  qed
qed

lemma dropWhile_spaced:
  "P (CHR '' '') \<Longrightarrow> spaced r r' \<Longrightarrow> dropWhile P r = c # t \<Longrightarrow>
   \<exists>t'. dropWhile P r' = c # t' \<and> spaced t t'"
  unfolding spaced_def[of r r']
  using dropWhile_insert_space[of P] by (auto simp: spaced_def)

lemma match_key_value_insert_space:
  assumes "match_key_value (q # s) = Some r" and "spaced s s'"
  shows "\<exists>r'. match_key_value (q # s') = Some r'"
proof -
  from assms(1) obtain r2 opener r3 r4 where
    q: "is_quote q" and
    d1: "dropWhile (in_token q) s = q # r2" and
    d2: "dropWhile is_space r2 = opener # r3" and
    op: "is_quote opener" and
    d3: "dropWhile (in_token q) r3 = q # r4"
    by (auto simp: match_key_value_def split: list.splits if_splits)
  have sp: "is_space (CHR '' '')" by (simp add: is_space_def)
  from dropWhile_spaced[OF space_in_token[OF q] assms(2) d1]
  obtain r2' where d1': "dropWhile (in_token q) s' = q # r2'" and s2: "spaced r2 r2'" by blast
  from dropWhile_spaced[OF sp s2 d2]
  obtain r3' where d2': "dropWhile is_space r2' = opener # r3'" and s3: "spaced r3 r3'" by blast
  from dropWhile_spaced[OF space_in_token[OF q] s3 d3]
  obtain r4' where d3': "dropWhile (in_token q) r3' = q # r4'" by blast
  from q op d1' d2' d3' show ?thesis by (simp add: match_key_value_def)
qed

lemma search_two_lines:
  assumes "match_key_value (a @ b) = Some r"
  shows "\<exists>r'. re_search match_key_value (a @ '' '' @ b) = Some r'"
proof (cases a)
  case Nil
  have "match_key_value (CHR '' '' # b) = None"
    by (simp add: match_key_value_def is_quote_def squote_def dquote_def)
  with Nil assms show ?thesis by (simp add: re_search_match)
next
  case (Cons q a')
  have "spaced (a' @ b) (a' @ CHR '' '' # b)" by (auto simp: spaced_def)
  with assms Cons obtain r' where "match_key_value (q # a' @ CHR '' '' # b) = Some r'"
    using match_key_value_insert_space by fastforce
  with Cons show ?thesis by (simp add: re_search_match)
qed


subsection \<open>The branches of the loop\<close>

text \<open>The loop, branch by branch.\<close>

lemma while_loop_end:
  "\<not> i < length lines \<Longrightarrow> while_loop self_km km lines i key mapper = Inr (Mapper mapper)"
  by (simp add: while_loop.simps)

lemma while_loop_open_no_key:
  "i < length lines \<Longrightarrow> startswith (lines ! i) ''{'' \<Longrightarrow> key = None \<or> key = Some [] \<Longrightarrow>
   while_loop self_km km lines i key mapper = Inl (BraceWithoutKey (i + 1))"
  by (subst while_loop.simps) auto

lemma while_loop_open:
  "i < length lines \<Longrightarrow> startswith (lines ! i) ''{'' \<Longrightarrow> key = Some k \<Longrightarrow> k \<noteq> [] \<Longrightarrow>
   while_loop self_km km lines i key mapper =
     (case while_loop self_km km lines (i + 1) None [] of
        Inl e \<Rightarrow> Inl e
      | Inr (Tuple nested j) \<Rightarrow>
          while_loop self_km km lines j key (setitem mapper k (Dict nested))
      | Inr (Mapper nested) \<Rightarrow>
          if length nested = 2 then Inl TypeError else Inl ValueError)"
  by (subst while_loop.simps) simp

lemma while_loop_close:
  "i < length lines \<Longrightarrow> \<not> startswith (lines ! i) ''{'' \<Longrightarrow> startswith (lines ! i) ''}'' \<Longrightarrow>
   while_loop self_km km lines i key mapper = Inr (Tuple mapper (i + 1))"
  by (subst while_loop.simps) simp

lemma while_loop_key:
  "i < length lines \<Longrightarrow> \<not> startswith (lines ! i) ''{'' \<Longrightarrow> \<not> startswith (lines ! i) ''}'' \<Longrightarrow>
   match_key (lines ! i) = Some k \<Longrightarrow>
   while_loop self_km km lines i key mapper =
     while_loop self_km km lines (i + 1) (Some (key_modifier self_km k km)) mapper"
  by (subst while_loop.simps) (simp add: re_search_match)

lemma while_loop_key_value:
  "i < length lines \<Longrightarrow> \<not> startswith (lines ! i) ''{'' \<Longrightarrow> \<not> startswith (lines ! i) ''}'' \<Longrightarrow>
   match_key (lines ! i) = None \<Longrightarrow> match_key_value (lines ! i) = Some (k, v) \<Longrightarrow>
   while_loop self_km km lines i key mapper =
     while_loop self_km km lines (i + 1) key
       (setitem mapper (key_modifier self_km k km) (Str v))"
  by (subst while_loop.simps) (simp add: re_search_match)

lemma while_loop_last:
  "i < length lines \<Longrightarrow> \<not> startswith (lines ! i) ''{'' \<Longrightarrow> \<not> startswith (lines ! i) ''}'' \<Longrightarrow>
   match_key (lines ! i) = None \<Longrightarrow> match_key_value (lines ! i) = None \<Longrightarrow>
   \<not> i + 1 < length lines \<Longrightarrow>
   while_loop self_km km lines i key mapper = Inr (Mapper mapper)"
  by (subst while_loop.simps) simp

lemma while_loop_two_lines:
  "i < length lines \<Longrightarrow> \<not> startswith (lines ! i) ''{'' \<Longrightarrow> \<not> startswith (lines ! i) ''}'' \<Longrightarrow>
   match_key (lines ! i) = None \<Longrightarrow> match_key_value (lines ! i) = None \<Longrightarrow>
   i + 1 < length lines \<Longrightarrow>
   match_key_value (lines ! i @ lines ! (i + 1)) = Some r \<Longrightarrow>
   re_search match_key_value (lines ! i @ '' '' @ lines ! (i + 1)) = Some (k, v) \<Longrightarrow>
   while_loop self_km km lines i key mapper =
     while_loop self_km km lines (i + 1) key
       (setitem mapper (key_modifier self_km k km) (Str v))"
  by (subst while_loop.simps) simp

lemma while_loop_skip:
  "i < length lines \<Longrightarrow> \<not> startswith (lines ! i) ''{'' \<Longrightarrow> \<not> startswith (lines ! i) ''}'' \<Longrightarrow>
   match_key (lines ! i) = None \<Longrightarrow> match_key_value (lines ! i) = None \<Longrightarrow>
   i + 1 < length lines \<Longrightarrow>
   match_key_value (lines ! i @ lines ! (i + 1)) = None \<Longrightarrow>
   while_loop self_km km lines i key mapper = while_loop self_km km lines (i + 1) key mapper"
  by (subst while_loop.simps) simp

text \<open>
  Induction along the run of the loop, one case for every branch, with the hypotheses
  for the calls the branch makes.
\<close>

lemma while_loop_cases_induct [consumes 0,
    case_names End OpenNoKey OpenError OpenBare OpenTuple Close Key KeyValue Last
      TwoLines Skip]:
  assumes End: "\<And>i key mapper. \<not> i < length lines \<Longrightarrow> P i key mapper"
    and OpenNoKey: "\<And>i key mapper.
      i < length lines \<Longrightarrow> startswith (lines ! i) ''{'' \<Longrightarrow> key = None \<or> key = Some [] \<Longrightarrow>
      P i key mapper"
    and OpenError: "\<And>i key mapper k e.
      i < length lines \<Longrightarrow> startswith (lines ! i) ''{'' \<Longrightarrow> key = Some k \<Longrightarrow> k \<noteq> [] \<Longrightarrow>
      while_loop self_km km lines (i + 1) None [] = Inl e \<Longrightarrow>
      P (i + 1) None [] \<Longrightarrow> P i key mapper"
    and OpenBare: "\<And>i key mapper k nested.
      i < length lines \<Longrightarrow> startswith (lines ! i) ''{'' \<Longrightarrow> key = Some k \<Longrightarrow> k \<noteq> [] \<Longrightarrow>
      while_loop self_km km lines (i + 1) None [] = Inr (Mapper nested) \<Longrightarrow>
      P (i + 1) None [] \<Longrightarrow> P i key mapper"
    and OpenTuple: "\<And>i key mapper k nested j.
      i < length lines \<Longrightarrow> startswith (lines ! i) ''{'' \<Longrightarrow> key = Some k \<Longrightarrow> k \<noteq> [] \<Longrightarrow>
      while_loop self_km km lines (i + 1) None [] = Inr (Tuple nested j) \<Longrightarrow>
      P (i + 1) None [] \<Longrightarrow> P j key (setitem mapper k (Dict nested)) \<Longrightarrow> P i key mapper"
    and Close: "\<And>i key mapper.
      i < length lines \<Longrightarrow> \<not> startswith (lines ! i) ''{'' \<Longrightarrow> startswith (lines ! i) ''}'' \<Longrightarrow>
      P i key mapper"
    and Key: "\<And>i key mapper k.
      i < length lines \<Longrightarrow> \<not> startswith (lines ! i) ''{'' \<Longrightarrow>
      \<not> startswith (lines ! i) ''}'' \<Longrightarrow> match_key (lines ! i) = Some k \<Longrightarrow>
      P (i + 1) (Some (key_modifier self_km k km)) mapper \<Longrightarrow> P i key mapper"
    and KeyValue: "\<And>i key mapper k v.
      i < length lines \<Longrightarrow> \<not> startswith (lines ! i) ''{'' \<Longrightarrow>
      \<not> startswith (lines ! i) ''}'' \<Longrightarrow> match_key (lines ! i) = None \<Longrightarrow>
      match_key_value (lines ! i) = Some (k, v) \<Longrightarrow>
      P (i + 1) key (setitem mapper (key_modifier self_km k km) (Str v)) \<Longrightarrow> P i key mapper"
    and Last: "\<And>i key mapper.
      i < length lines \<Longrightarrow> \<not> startswith (lines ! i) ''{'' \<Longrightarrow>
      \<not> startswith (lines ! i) ''}'' \<Longrightarrow> match_key (lines ! i) = None \<Longrightarrow>
      match_key_value (lines ! i) = None \<Longrightarrow> \<not> i + 1 < length lines \<Longrightarrow> P i key mapper"
    and TwoLines: "\<And>i key mapper r k v.
      i < length lines \<Longrightarrow> \<not> startswith (lines ! i) ''{'' \<Longrightarrow>
      \<not> startswith (lines ! i) ''}'' \<Longrightarrow> match_key (lines ! i) = None \<Longrightarrow>
      match_key_value (lines ! i) = None \<Longrightarrow> i + 1 < length lines \<Longrightarrow>
      match_key_value (lines ! i @ lines ! (i + 1)) = Some r \<Longrightarrow>
      re_search match_key_value (lines ! i @ '' '' @ lines ! (i + 1)) = Some (k, v) \<Longrightarrow>
      P (i + 1) key (setitem mapper (key_modifier self_km k km) (Str v)) \<Longrightarrow> P i key mapper"
    and Skip: "\<And>i key mapper.
      i < length lines \<Longrightarrow> \<not> startswith (lines ! i) ''{'' \<Longrightarrow>
      \<not> startswith (lines ! i) ''}'' \<Longrightarrow> match_key (lines ! i) = None \<Longrightarrow>
      match_key_value (lines ! i) = None \<Longrightarrow> i + 1 < length lines \<Longrightarrow>
      match_key_value (lines ! i @ lines ! (i + 1)) = None \<Longrightarrow>
      P (i + 1) key mapper \<Longrightarrow> P i key mapper"
  shows "P i key mapper"
proof -
  have "P i key mapper" if "s = self_km" "k = km" "l = lines" for s k l
    using that
  proof (induction s k l i key mapper rule: while_loop.induct)
    case (1 s k l i key mapper)
    note IH = "1.IH"[unfolded "1.prems"]
    show ?case
    proof (cases "i < length lines")
      case False
      then show ?thesis by (rule End)
    next
      case inb: True
      show ?thesis
      proof (cases "startswith (lines ! i) ''{''")
        case ob: True
        show ?thesis
        proof (cases "key = None \<or> key = Some []")
          case True
          with inb ob show ?thesis by (rule OpenNoKey)
        next
          case False
          then obtain k' where k: "key = Some k'" "k' \<noteq> []" by (cases key) auto
          have nested: "P (i + 1) None []"
            by (rule IH(1)[OF inb ob k refl refl refl])
          show ?thesis
          proof (cases "while_loop self_km km lines (i + 1) None []")
            case (Inl e)
            from inb ob k Inl nested show ?thesis by (rule OpenError)
          next
            case (Inr r)
            show ?thesis
            proof (cases r)
              case (Mapper m')
              from inb ob k Inr[unfolded Mapper] nested show ?thesis by (rule OpenBare)
            next
              case (Tuple m' j)
              have "P j key (setitem mapper k' (Dict m'))"
                by (rule IH(2)[OF inb ob k Inr Tuple refl refl refl])
              with inb ob k Inr[unfolded Tuple] nested show ?thesis by (rule OpenTuple)
            qed
          qed
        qed
      next
        case nob: False
        show ?thesis
        proof (cases "startswith (lines ! i) ''}''")
          case True
          with inb nob show ?thesis by (rule Close)
        next
          case ncb: False
          show ?thesis
          proof (cases "match_key (lines ! i)")
            case mk: (Some k')
            have "P (i + 1) (Some (key_modifier self_km k' km)) mapper"
              by (rule IH(6)[OF inb nob ncb mk re_search_match[of match_key, OF mk] refl refl refl])
            with inb nob ncb mk show ?thesis by (rule Key)
          next
            case mk: None
            show ?thesis
            proof (cases "match_key_value (lines ! i)")
              case (Some kv)
              obtain k' v where kv: "kv = (k', v)" by (cases kv)
              have mkv: "match_key_value (lines ! i) = Some (k', v)"
                using Some kv by simp
              have "P (i + 1) key (setitem mapper (key_modifier self_km k' km) (Str v))"
                by (rule IH(5)[OF inb nob ncb mk mkv re_search_match[of match_key_value, OF mkv] refl refl refl refl])
              with inb nob ncb mk mkv show ?thesis by (rule KeyValue)
            next
              case mkv: None
              show ?thesis
              proof (cases "i + 1 < length lines")
                case False
                with inb nob ncb mk mkv show ?thesis by (rule Last)
              next
                case nxt: True
                show ?thesis
                proof (cases "match_key_value (lines ! i @ lines ! (i + 1))")
                  case two: None
                  have "P (i + 1) key mapper"
                    by (rule IH(3)[OF inb nob ncb mk mkv nxt two refl refl refl])
                  with inb nob ncb mk mkv nxt two show ?thesis by (rule Skip)
                next
                  case two: (Some r)
                  show ?thesis
                  proof (cases "re_search match_key_value (lines ! i @ '' '' @ lines ! (i + 1))")
                    case None
                    with search_two_lines[OF two] show ?thesis by simp
                  next
                    case (Some kv)
                    obtain k' v where kv: "kv = (k', v)" by (cases kv)
                    have "P (i + 1) key (setitem mapper (key_modifier self_km k' km) (Str v))"
                      by (rule IH(4)[OF inb nob ncb mk mkv nxt two Some kv[symmetric] refl refl refl])
                    with inb nob ncb mk mkv nxt two Some[unfolded kv] show ?thesis
                      by (rule TwoLines)
                  qed
                qed
              qed
            qed
          qed
        qed
      qed
    qed
  qed
  then show ?thesis by simp
qed

subsection \<open>What the loop returns\<close>

text \<open>
  The index returned at a closing brace lies beyond the index the loop started at and
  within the lines.
\<close>

lemma while_loop_tuple_index:
  "while_loop self_km km lines i key mapper = Inr (Tuple m j) \<Longrightarrow> i < j \<and> j \<le> length lines"
proof (induction i key mapper arbitrary: m j rule: while_loop_cases_induct[of lines _ self_km km])
  case (End i key mapper)
  then show ?case by (simp add: while_loop_end)
next
  case (OpenNoKey i key mapper)
  then show ?case by (simp add: while_loop_open_no_key)
next
  case (OpenError i key mapper k e)
  then show ?case by (simp add: while_loop_open)
next
  case (OpenBare i key mapper k nested)
  then show ?case by (simp add: while_loop_open split: if_splits)
next
  case (OpenTuple i key mapper k nested j')
  from OpenTuple.prems OpenTuple.hyps
  have "while_loop self_km km lines j' key (setitem mapper k (Dict nested)) = Inr (Tuple m j)"
    by (simp add: while_loop_open)
  from OpenTuple.IH(2)[OF this] OpenTuple.IH(1)[OF OpenTuple.hyps(5)]
  show ?case by simp
next
  case (Close i key mapper)
  then show ?case by (simp add: while_loop_close)
next
  case (Key i key mapper k)
  from Key.prems Key.hyps Key.IH[of m j] show ?case by (simp add: while_loop_key)
next
  case (KeyValue i key mapper k v)
  from KeyValue.prems KeyValue.hyps KeyValue.IH[of m j] show ?case
    by (simp add: while_loop_key_value)
next
  case (Last i key mapper)
  then show ?case by (simp add: while_loop_last)
next
  case (TwoLines i key mapper r k v)
  from TwoLines.prems TwoLines.hyps TwoLines.IH[of m j] show ?case
    by (simp add: while_loop_two_lines)
next
  case (Skip i key mapper)
  from Skip.prems Skip.hyps Skip.IH[of m j] show ?case by (simp add: while_loop_skip)
qed

text \<open>
  The line number in the exception of a brace without key is that of a line of the
  input that starts with an opening brace, at or after the line the loop started at.
\<close>

lemma while_loop_error_line:
  "while_loop self_km km lines i key mapper = Inl (BraceWithoutKey n) \<Longrightarrow>
   i < n \<and> n \<le> length lines \<and> startswith (lines ! (n - 1)) ''{''"
proof (induction i key mapper rule: while_loop_cases_induct[of lines _ self_km km])
  case (End i key mapper)
  then show ?case by (simp add: while_loop_end)
next
  case (OpenNoKey i key mapper)
  then show ?case by (auto simp: while_loop_open_no_key)
next
  case (OpenError i key mapper k e)
  then show ?case by (simp add: while_loop_open)
next
  case (OpenBare i key mapper k nested)
  then show ?case by (simp add: while_loop_open split: if_splits)
next
  case (OpenTuple i key mapper k nested j')
  from OpenTuple.prems OpenTuple.hyps
  have "while_loop self_km km lines j' key (setitem mapper k (Dict nested)) =
      Inl (BraceWithoutKey n)"
    by (simp add: while_loop_open)
  from OpenTuple.IH(2)[OF this] while_loop_tuple_index[OF OpenTuple.hyps(5)]
  show ?case by simp
next
  case (Close i key mapper)
  then show ?case by (simp add: while_loop_close)
next
  case (Key i key mapper k)
  then show ?case by (simp add: while_loop_key)
next
  case (KeyValue i key mapper k v)
  then show ?case by (simp add: while_loop_key_value)
next
  case (Last i key mapper)
  then show ?case by (simp add: while_loop_last)
next
  case (TwoLines i key mapper r k v)
  then show ?case by (simp add: while_loop_two_lines)
next
  case (Skip i key mapper)
  then show ?case by (simp add: while_loop_skip)
qed

text \<open>The loop never reads a line before the one it is at.\<close>

lemma while_loop_earlier_line:
  "i < j \<Longrightarrow>
   while_loop self_km km (lines[i := x]) j key mapper = while_loop self_km km lines j key mapper"
proof (induction j key mapper rule: while_loop_cases_induct[of lines _ self_km km])
  case (End j key mapper)
  then show ?case by (simp add: while_loop_end)
next
  case (OpenNoKey j key mapper)
  then show ?case by (simp add: while_loop_open_no_key)
next
  case (OpenError j key mapper k e)
  then show ?case by (simp add: while_loop_open)
next
  case (OpenBare j key mapper k nested)
  then show ?case by (simp add: while_loop_open)
next
  case (OpenTuple j key mapper k nested j')
  from while_loop_tuple_index[OF OpenTuple.hyps(5)] OpenTuple.prems have "i < j'" by simp
  with OpenTuple show ?case by (simp add: while_loop_open)
next
  case (Close j key mapper)
  then show ?case by (simp add: while_loop_close)
next
  case (Key j key mapper k)
  then show ?case by (simp add: while_loop_key)
next
  case (KeyValue j key mapper k v)
  then show ?case by (simp add: while_loop_key_value)
next
  case (Last j key mapper)
  then show ?case by (simp add: while_loop_last)
next
  case (TwoLines j key mapper r k v)
  then show ?case by (simp add: while_loop_two_lines)
next
  case (Skip j key mapper)
  then show ?case by (simp add: while_loop_skip)
qed

text \<open>An exception raised at a state the run comes to leaves the frame the run started in.\<close>

lemma visits_error:
  assumes "visits self_km km lines st0 st"
    and "while_loop self_km km lines (fst st) (fst (snd st)) (snd (snd st)) = Inl e"
  shows "while_loop self_km km lines (fst st0) (fst (snd st0)) (snd (snd st0)) = Inl e"
  using assms
proof (induction rule: visits.induct)
  case (here st)
  then show ?case by simp
next
  case (nested i key k st mapper)
  then show ?case by (simp add: while_loop_open)
next
  case (after_nested i key k nested j mapper st)
  then show ?case by (simp add: while_loop_open)
next
  case (after_key i k mapper st key)
  then show ?case by (simp add: while_loop_key)
next
  case (after_key_value i k v key mapper st)
  then show ?case by (simp add: while_loop_key_value)
next
  case (after_two_lines i r k v key mapper st)
  then show ?case by (simp add: while_loop_two_lines)
next
  case (after_skip i key mapper st)
  then show ?case by (simp add: while_loop_skip)
qed

subsection \<open>Assignments to a mapper\<close>





subsection \<open>Running the parser on given lines\<close>

text \<open>The equations that evaluate the parser on lines written out.\<close>

lemmas run_simps = while_loop.simps KeyValues__parse_def match_key_def match_key_value_def
  startswith_def quoted_def dquote_def squote_def newline_def is_quote_def in_token_def
  no_char_follows_def key_modifier_def is_space_def

subsection \<open>A brace at which the variable key is unset\<close>

text \<open>
  Whenever the run of a call comes, in any frame, to a line that starts with an opening
  brace while the variable \<open>key\<close> of that frame is \<^verbatim>\<open>False\<close> or the empty string,
  the call raises the exception that carries the 1-based number of that line: only
  \<^verbatim>\<open>IndexError\<close> is handled, so the exception leaves every enclosing frame.
\<close>

lemma unset_key_brace_raises:
  assumes "visits self_km km lines (i0, None, []) (i, key, mapper)"
    and "i < length lines" and "startswith (lines ! i) ''{''"
    and "key = None \<or> key = Some []"
  shows "KeyValues__parse self_km lines i0 km = Inl (BraceWithoutKey (i + 1))"
proof -
  have "while_loop self_km km lines i key mapper = Inl (BraceWithoutKey (i + 1))"
    by (rule while_loop_open_no_key[OF assms(2-4)])
  with visits_error[OF assms(1)] show ?thesis by (simp add: KeyValues__parse_def)
qed

text \<open>
  The lines \<^verbatim>\<open>"a"\<close>, \<^verbatim>\<open>{\<close>, \<^verbatim>\<open>"x" "y"\<close>, \<^verbatim>\<open>{\<close>, \<^verbatim>\<open>}\<close>, where the second
  brace stands in the nested frame and is line 4, and the lines \<^verbatim>\<open>{\<close>,
  \<^verbatim>\<open>"x" "y"\<close>, \<^verbatim>\<open>}\<close>, where the brace is line 1.
\<close>

lemma unset_key_brace_raises_example:
  "visits None None [quoted ''a'', ''{'', quoted ''x'' @ '' '' @ quoted ''y'', ''{'', ''}'']
     (0, None, []) (3, None, [(''x'', Str ''y'')]) \<and>
   startswith ([quoted ''a'', ''{'', quoted ''x'' @ '' '' @ quoted ''y'', ''{'', ''}''] ! 3) ''{'' \<and>
   KeyValues__parse None [quoted ''a'', ''{'', quoted ''x'' @ '' '' @ quoted ''y'', ''{'', ''}''] 0 None =
     Inl (BraceWithoutKey (3 + 1)) \<and>
   KeyValues__parse None [''{'', quoted ''x'' @ '' '' @ quoted ''y'', ''}''] 0 None =
     Inl (BraceWithoutKey (0 + 1))"
proof -
  let ?lines = "[quoted ''a'', ''{'', quoted ''x'' @ '' '' @ quoted ''y'', ''{'', ''}'']"
  let ?given = "[''{'', quoted ''x'' @ '' '' @ quoted ''y'', ''}'']"
  let ?st = "(0 + 1 + 1 + 1, None, setitem [] (key_modifier None ''x'' None) (Str ''y''))"
  have "visits None None ?lines ?st ?st"
    by (rule visits.here)
  then have "visits None None ?lines (0 + 1 + 1, None, []) ?st"
    by (rule visits.after_key_value[rotated -1]) (simp_all add: run_simps)
  then have "visits None None ?lines (0 + 1, Some (key_modifier None ''a'' None), []) ?st"
    by (rule visits.nested[where k = "''a''", rotated -1]) (simp_all add: run_simps)
  then have "visits None None ?lines (0, None, []) ?st"
    by (rule visits.after_key[rotated -1]) (simp_all add: run_simps)
  then have v: "visits None None ?lines (0, None, []) (3, None, [(''x'', Str ''y'')])"
    by (simp add: key_modifier_def numeral_3_eq_3)
  have b: "startswith (?lines ! 3) ''{''" by (simp add: startswith_def)
  have r: "KeyValues__parse None ?lines 0 None = Inl (BraceWithoutKey (3 + 1))"
    by (rule unset_key_brace_raises[OF v _ b]) simp_all
  have "KeyValues__parse None ?given 0 None = Inl (BraceWithoutKey (0 + 1))"
    by (rule unset_key_brace_raises[OF visits.here]) (simp_all add: startswith_def)
  with v b r show ?thesis by simp
qed

subsection \<open>A pair whose two tokens have the same quote character\<close>

text \<open>
  For a key and a value both between quote characters \<open>q\<close>, with white space without
  line feed between them and both texts free of \<open>q\<close> and of line feeds, whatever
  follows the closing quote of the value is ignored and the pair is bound: in the
  one-line branch, and in the two-line branch when the value goes on in the next line.
\<close>

lemma pair_pattern_prefix:
  assumes q: "is_quote q"
    and k: "list_all (in_token q) k" and ws: "list_all is_space ws" and nl: "newline \<notin> set ws"
    and v: "list_all (in_token q) v" and v2: "list_all (in_token q) v2"
    and len: "i < length lines"
  shows "(lines ! i = q # k @ q # ws @ q # v @ q # rest \<longrightarrow>
           while_loop self_km km lines i key mapper =
             while_loop self_km km lines (i + 1) key
               (setitem mapper (key_modifier self_km k km) (Str v))) \<and>
         (i + 1 < length lines \<and> lines ! i = q # k @ q # ws @ q # v \<and>
          lines ! (i + 1) = v2 @ q # rest \<longrightarrow>
           while_loop self_km km lines i key mapper =
             while_loop self_km km lines (i + 1) key
               (setitem mapper (key_modifier self_km k km) (Str (v @ '' '' @ v2))))"
proof (intro conjI impI)
  assume line: "lines ! i = q # k @ q # ws @ q # v @ q # rest"
  have nb: "\<not> startswith (lines ! i) ''{''" "\<not> startswith (lines ! i) ''}''"
    using quote_not_brace[OF q] line by simp_all
  have nk: "match_key (lines ! i) = None"
    unfolding line
    by (rule match_key_more[OF q k follows_spaces_quote[OF q nl]])
  have kv: "match_key_value (lines ! i) = Some (k, v)"
    unfolding line by (rule match_key_value_tokens[OF q q k ws v])
  show "while_loop self_km km lines i key mapper =
      while_loop self_km km lines (i + 1) key
        (setitem mapper (key_modifier self_km k km) (Str v))"
    by (rule while_loop_key_value[OF len nb nk kv])
next
  assume two: "i + 1 < length lines \<and> lines ! i = q # k @ q # ws @ q # v \<and>
    lines ! (i + 1) = v2 @ q # rest"
  then have nxt: "i + 1 < length lines" and line: "lines ! i = q # k @ q # ws @ q # v"
    and line2: "lines ! (i + 1) = v2 @ q # rest" by simp_all
  have nb: "\<not> startswith (lines ! i) ''{''" "\<not> startswith (lines ! i) ''}''"
    using quote_not_brace[OF q] line by simp_all
  have nk: "match_key (lines ! i) = None"
    unfolding line
    by (rule match_key_more[OF q k follows_spaces_quote[OF q nl]])
  have nkv: "match_key_value (lines ! i) = None"
    unfolding line by (rule match_key_value_open[OF q q k ws v])
  have vv: "list_all (in_token q) (v @ v2)" using v v2 by simp
  have both: "match_key_value (lines ! i @ lines ! (i + 1)) = Some (k, v @ v2)"
    unfolding line line2 using match_key_value_tokens[OF q q k ws vv, of rest] by simp
  have vsv: "list_all (in_token q) (v @ '' '' @ v2)"
    using v v2 space_in_token[OF q] by simp
  have "match_key_value (lines ! i @ '' '' @ lines ! (i + 1)) = Some (k, v @ '' '' @ v2)"
    unfolding line line2 using match_key_value_tokens[OF q q k ws vsv, of rest] by simp
  then have found: "re_search match_key_value (lines ! i @ '' '' @ lines ! (i + 1)) =
      Some (k, v @ '' '' @ v2)"
    by (rule re_search_match)
  show "while_loop self_km km lines i key mapper =
      while_loop self_km km lines (i + 1) key
        (setitem mapper (key_modifier self_km k km) (Str (v @ '' '' @ v2)))"
    by (rule while_loop_two_lines[OF len nb nk nkv nxt both found])
qed

text \<open>
  The lines \<^verbatim>\<open>"k" "v" "x"\<close>, \<^verbatim>\<open>"k" "v\<close> and \<^verbatim>\<open>w" "x"\<close>: the first gives the
  pair \<open>(k, v)\<close>, the second and the third the pair \<open>(k, v w)\<close>.
\<close>

lemma pair_pattern_prefix_example:
  "is_quote dquote \<and> list_all (in_token dquote) ''k'' \<and> list_all is_space '' '' \<and>
   newline \<notin> set '' '' \<and> list_all (in_token dquote) ''v'' \<and> list_all (in_token dquote) ''w'' \<and>
   while_loop None None
     [quoted ''k'' @ '' '' @ quoted ''v'' @ '' '' @ quoted ''x'',
      quoted ''k'' @ '' '' @ dquote # ''v'', ''w'' @ dquote # '' '' @ quoted ''x''] 0 None [] =
   while_loop None None
     [quoted ''k'' @ '' '' @ quoted ''v'' @ '' '' @ quoted ''x'',
      quoted ''k'' @ '' '' @ dquote # ''v'', ''w'' @ dquote # '' '' @ quoted ''x''] 1 None
     [(''k'', Str ''v'')] \<and>
   while_loop None None
     [quoted ''k'' @ '' '' @ quoted ''v'' @ '' '' @ quoted ''x'',
      quoted ''k'' @ '' '' @ dquote # ''v'', ''w'' @ dquote # '' '' @ quoted ''x''] 1 None [] =
   while_loop None None
     [quoted ''k'' @ '' '' @ quoted ''v'' @ '' '' @ quoted ''x'',
      quoted ''k'' @ '' '' @ dquote # ''v'', ''w'' @ dquote # '' '' @ quoted ''x''] 2 None
     [(''k'', Str ''v w'')]"
proof -
  let ?lines = "[quoted ''k'' @ '' '' @ quoted ''v'' @ '' '' @ quoted ''x'',
      quoted ''k'' @ '' '' @ dquote # ''v'', ''w'' @ dquote # '' '' @ quoted ''x'']"
  have q: "is_quote dquote" by (simp add: is_quote_def)
  have k: "list_all (in_token dquote) ''k''" by (simp add: in_token_def dquote_def newline_def)
  have ws: "list_all is_space '' ''" by (simp add: is_space_def)
  have nl: "newline \<notin> set '' ''" by (simp add: newline_def)
  have v: "list_all (in_token dquote) ''v''" by (simp add: in_token_def dquote_def newline_def)
  have w: "list_all (in_token dquote) ''w''" by (simp add: in_token_def dquote_def newline_def)
  have len: "0 < length ?lines" "1 + 1 < length ?lines" by simp_all
  note thm0 = pair_pattern_prefix[OF q k ws nl v w len(1),
      of "'' '' @ quoted ''x''" None None None "[]", THEN conjunct1]
  note thm1 = pair_pattern_prefix[where i = 1 and lines = ?lines,
      OF q k ws nl v w, of "'' '' @ quoted ''x''" None None None "[]", THEN conjunct2]
  have a: "while_loop None None ?lines 0 None [] =
      while_loop None None ?lines 1 None [(''k'', Str ''v'')]"
    using thm0 by (simp add: quoted_def key_modifier_def)
  have b: "while_loop None None ?lines 1 None [] =
      while_loop None None ?lines 2 None [(''k'', Str ''v w'')]"
    using thm1 by (simp add: quoted_def key_modifier_def numeral_2_eq_2)
  from q k ws nl v w a b show ?thesis by simp
qed

section \<open>The claims\<close>

subsection \<open>C1: a block of two single-token lines\<close>

text \<open>
  Claim C1 says that the five lines \<^verbatim>\<open>"a"\<close>, \<^verbatim>\<open>{\<close>, \<^verbatim>\<open>"b"\<close>, \<^verbatim>\<open>"c"\<close>,
  \<^verbatim>\<open>}\<close> give a root mapper whose only pair binds \<open>a\<close> to the nested mapper that
  holds exactly the pair \<open>(b, c)\<close>. They do not: a line that is one quoted token
  matches the pattern \<^verbatim>\<open>"key"\<close>, which the loop tries before the two patterns for
  pairs, so \<^verbatim>\<open>"b"\<close> and then \<^verbatim>\<open>"c"\<close> only set the variable \<open>key\<close> of the
  nested frame.
\<close>

theorem nested_single_tokens_not_bound:
  "KeyValues__parse None [quoted ''a'', ''{'', quoted ''b'', quoted ''c'', ''}''] 0 None \<noteq>
     Inr (Mapper [(''a'', Dict [(''b'', Str ''c'')])])"
  by (simp add: run_simps)

text \<open>
  Claim C1 as amended: the five lines \<^verbatim>\<open>"a"\<close>, \<^verbatim>\<open>{\<close>, \<^verbatim>\<open>"b"\<close>, \<^verbatim>\<open>"c"\<close>,
  \<^verbatim>\<open>}\<close> give a root mapper whose only pair binds \<open>a\<close> to an empty nested mapper.
\<close>

theorem nested_single_tokens_are_keys:
  "KeyValues__parse None [quoted ''a'', ''{'', quoted ''b'', quoted ''c'', ''}''] 0 None =
     Inr (Mapper [(''a'', Dict [])])"
  by (simp add: run_simps)

subsection \<open>C2: a key bound twice\<close>




subsection \<open>C3: a key and a value on two lines\<close>

text \<open>
  Claim C3 says that the two lines \<^verbatim>\<open>"k"\<close> and \<^verbatim>\<open>"v"\<close> give a root mapper with
  the single pair \<open>(k, v)\<close>, bound by the two-line branch. They do not: each of the
  two lines matches the pattern \<^verbatim>\<open>"key"\<close>, which is tried first, and the call
  returns an empty mapper.
\<close>

theorem two_single_token_lines_not_bound:
  "KeyValues__parse None [quoted ''k'', quoted ''v''] 0 None \<noteq> Inr (Mapper [(''k'', Str ''v'')])"
  by (simp add: run_simps)

text \<open>
  Claim C3 as amended: two lines that are each one token between double quotes are not
  bound as a pair. Each sets the variable \<open>key\<close>, and the call returns an empty
  mapper, whatever the texts of the two tokens and whatever the key modifier.
\<close>

theorem two_single_token_lines_are_keys:
  assumes "list_all (in_token dquote) k" and "list_all (in_token dquote) v"
  shows "KeyValues__parse self_km [quoted k, quoted v] 0 km = Inr (Mapper [])"
proof -
  let ?lines = "[quoted k, quoted v]"
  have q: "is_quote dquote" by (simp add: is_quote_def)
  have e: "no_char_follows []" by (simp add: no_char_follows_def)
  have k: "match_key (?lines ! 0) = Some k"
    using match_key_token[OF q assms(1) e] by (simp add: quoted_def)
  have v: "match_key (?lines ! (0 + 1)) = Some v"
    using match_key_token[OF q assms(2) e] by (simp add: quoted_def)
  have nb0: "\<not> startswith (?lines ! 0) ''{''" "\<not> startswith (?lines ! 0) ''}''"
    using quote_not_brace[OF q] by (simp_all add: quoted_def)
  have nb1: "\<not> startswith (?lines ! (0 + 1)) ''{''" "\<not> startswith (?lines ! (0 + 1)) ''}''"
    using quote_not_brace[OF q] by (simp_all add: quoted_def)
  have "while_loop self_km km ?lines 0 None [] =
      while_loop self_km km ?lines (0 + 1) (Some (key_modifier self_km k km)) []"
    by (rule while_loop_key[OF _ nb0 k]) simp
  also have "\<dots> = while_loop self_km km ?lines (0 + 1 + 1) (Some (key_modifier self_km v km)) []"
    by (rule while_loop_key[OF _ nb1 v]) simp
  also have "\<dots> = Inr (Mapper [])"
    by (rule while_loop_end) simp
  finally show ?thesis by (simp add: KeyValues__parse_def)
qed

text \<open>The theorem at the two lines \<^verbatim>\<open>"k"\<close> and \<^verbatim>\<open>"v"\<close>.\<close>

theorem two_single_token_lines_are_keys_witness:
  "list_all (in_token dquote) ''k'' \<and> list_all (in_token dquote) ''v'' \<and>
   KeyValues__parse None [quoted ''k'', quoted ''v''] 0 None = Inr (Mapper [])"
proof -
  have k: "list_all (in_token dquote) ''k''" by (simp add: in_token_def dquote_def newline_def)
  have v: "list_all (in_token dquote) ''v''" by (simp add: in_token_def dquote_def newline_def)
  from k v two_single_token_lines_are_keys[OF k v, of None None] show ?thesis by simp
qed

subsection \<open>C4: the input ends inside a block\<close>

text \<open>
  Claim C4 says that the three lines \<^verbatim>\<open>"k"\<close>, \<^verbatim>\<open>{\<close>, \<^verbatim>\<open>"x"\<close> do not raise and
  give a root mapper that binds \<open>k\<close> to the nested mapper read so far. The nested
  frame reaches the end of the input and returns its bare mapper, not the 2-tuple that
  the calling frame unpacks: the call raises \<^verbatim>\<open>ValueError\<close>.
\<close>

theorem unclosed_block_raises:
  "KeyValues__parse None [quoted ''k'', ''{'', quoted ''x''] 0 None = Inl ValueError"
  by (simp add: run_simps)

subsection \<open>C5: what a call returns or raises\<close>

text \<open>
  Claim C5 says that every call returns a mapper or raises one of two kinds of error.
  A closing brace in the outermost frame makes the call return the 2-tuple of the
  mapper and the next index, and the lines after it are never read.
\<close>

theorem closing_brace_at_top_level_returns_tuple:
  "KeyValues__parse None [''}'', quoted ''k'' @ '' '' @ quoted ''v''] 0 None = Inr (Tuple [] 1)"
  by (simp add: run_simps)

subsection \<open>C6: an opening brace without key\<close>

text \<open>
  Claim C6 says that every opening brace that comes while no key is pending raises the
  exception with the number of its line. A key is pending until a block has been bound
  to it. The loop tests the variable \<open>key\<close> (line 231), which it does not reset when
  it binds a block (line 233): in the lines \<^verbatim>\<open>"a"\<close>, \<^verbatim>\<open>{\<close>, \<^verbatim>\<open>}\<close>, \<^verbatim>\<open>{\<close>,
  \<^verbatim>\<open>}\<close> no key is pending at the second opening brace, line 4, but the variable still
  holds \<open>a\<close>, and the call binds a second block to \<open>a\<close> and raises nothing.
\<close>

theorem brace_after_block_does_not_raise:
  "KeyValues__parse None [quoted ''a'', ''{'', ''}'', ''{'', ''}''] 0 None =
     Inr (Mapper [(''a'', Dict [])])"
  by (simp add: run_simps)

subsection \<open>C7: the two tokens of a pair and their quote characters\<close>

text \<open>
  Claim C7 says that a line whose key is between single quotes and whose value is
  between double quotes is read as a pair. The pattern \<^verbatim>\<open>"key_value"\<close> closes the
  value with \<^verbatim>\<open>\1\<close>, the quote character of the key: the line
  \<^verbatim>\<open>'k' "v"\<close> does not match, and the call on this one line returns an empty mapper.
\<close>

theorem mixed_quotes_not_recognised:
  "match_key_value (squote # ''k'' @ [squote] @ '' '' @ quoted ''v'') = None \<and>
   KeyValues__parse None [squote # ''k'' @ [squote] @ '' '' @ quoted ''v''] 0 None =
     Inr (Mapper [])"
  by (simp add: run_simps)

subsection \<open>C8: the two-line branch advances by one line\<close>

text \<open>
  Claim C8: whenever the two-line branch binds a pair put together from the lines
  \<open>i\<close> and \<open>i + 1\<close>, the loop goes on at the line \<open>i + 1\<close>, not \<open>i + 2\<close>, so
  the second of the two lines is scanned again as a line of its own. The branch is
  taken when the line \<open>i\<close> starts with no brace and matches neither pattern, a line
  follows, and the two lines put end to end match the pattern for pairs; the search in
  the two lines joined by a space then always finds a pair, which is the one bound.
\<close>

theorem two_line_rule_advances_one_line:
  assumes "i + 1 < length lines"
    and "\<not> startswith (lines ! i) ''{''" and "\<not> startswith (lines ! i) ''}''"
    and "match_key (lines ! i) = None" and "match_key_value (lines ! i) = None"
    and "match_key_value (lines ! i @ lines ! (i + 1)) = Some r"
  shows "\<exists>k v. re_search match_key_value (lines ! i @ '' '' @ lines ! (i + 1)) = Some (k, v) \<and>
           while_loop self_km km lines i key mapper =
             while_loop self_km km lines (i + 1) key
               (setitem mapper (key_modifier self_km k km) (Str v))"
proof -
  from search_two_lines[OF assms(6)] obtain k v where
    found: "re_search match_key_value (lines ! i @ '' '' @ lines ! (i + 1)) = Some (k, v)"
    by fastforce
  have "i < length lines" using assms(1) by simp
  from while_loop_two_lines[OF this assms(2-5) assms(1) assms(6) found] found
  show ?thesis by blast
qed

text \<open>
  The theorem at the lines \<^verbatim>\<open>"a" 'b\<close>, \<^verbatim>\<open>"c"\<close>, \<^verbatim>\<open>{\<close>, \<^verbatim>\<open>}\<close>: the pair
  \<open>(a, b )\<close> is bound from the first two lines, and the second line, scanned again,
  is the key of the block that follows.
\<close>

theorem two_line_rule_advances_one_line_witness:
  "re_search match_key_value
     ([quoted ''a'' @ '' '' @ squote # ''b'', quoted ''c'', ''{'', ''}''] ! 0 @ '' '' @
      [quoted ''a'' @ '' '' @ squote # ''b'', quoted ''c'', ''{'', ''}''] ! (0 + 1)) =
     Some (''a'', ''b '') \<and>
   while_loop None None [quoted ''a'' @ '' '' @ squote # ''b'', quoted ''c'', ''{'', ''}''] 0 None [] =
     while_loop None None [quoted ''a'' @ '' '' @ squote # ''b'', quoted ''c'', ''{'', ''}''] (0 + 1)
       None [(''a'', Str ''b '')] \<and>
   while_loop None None [quoted ''a'' @ '' '' @ squote # ''b'', quoted ''c'', ''{'', ''}''] 0 None [] =
     Inr (Mapper [(''a'', Str ''b ''), (''c'', Dict [])])"
proof -
  let ?lines = "[quoted ''a'' @ '' '' @ squote # ''b'', quoted ''c'', ''{'', ''}'']"
  have found: "re_search match_key_value (?lines ! 0 @ '' '' @ ?lines ! (0 + 1)) = Some (''a'', ''b '')"
    by (simp add: run_simps)
  have "\<exists>k v. re_search match_key_value (?lines ! 0 @ '' '' @ ?lines ! (0 + 1)) = Some (k, v) \<and>
           while_loop None None ?lines 0 None [] =
             while_loop None None ?lines (0 + 1) None (setitem [] (key_modifier None k None) (Str v))"
    by (rule two_line_rule_advances_one_line[where r = "(''a'', ''b'')"]) (simp_all add: run_simps)
  with found have step: "while_loop None None ?lines 0 None [] =
      while_loop None None ?lines (0 + 1) None [(''a'', Str ''b '')]"
    by (simp add: key_modifier_def)
  have "while_loop None None ?lines (0 + 1) None [(''a'', Str ''b '')] =
      Inr (Mapper [(''a'', Str ''b ''), (''c'', Dict [])])"
    by (simp add: run_simps)
  with found step show ?thesis by simp
qed

subsection \<open>C9: braces are told by the first character\<close>

text \<open>
  Claim C9: a line is an opening (a closing) brace exactly when it starts with the
  character \<^verbatim>\<open>{\<close> (\<^verbatim>\<open>}\<close>), whatever follows on the line. At a line \<open>i\<close> of the
  input, the loop returns the 2-tuple with the index \<open>i + 1\<close> exactly when the line
  starts with \<^verbatim>\<open>}\<close>; started without key, it raises the exception for the line
  \<open>i + 1\<close> exactly when the line starts with \<^verbatim>\<open>{\<close>; and what follows the brace on
  the line changes nothing: the loop does the same when the line is the brace alone.
\<close>

theorem braces_by_first_character:
  assumes "i < length lines"
  shows "(startswith (lines ! i) ''}'' \<longleftrightarrow>
           (\<exists>m. while_loop self_km km lines i key mapper = Inr (Tuple m (i + 1)))) \<and>
         (startswith (lines ! i) ''{'' \<longleftrightarrow>
           while_loop self_km km lines i None mapper = Inl (BraceWithoutKey (i + 1))) \<and>
         (startswith (lines ! i) ''{'' \<longrightarrow>
           while_loop self_km km lines i key mapper =
             while_loop self_km km (lines[i := ''{'']) i key mapper) \<and>
         (startswith (lines ! i) ''}'' \<longrightarrow>
           while_loop self_km km lines i key mapper =
             while_loop self_km km (lines[i := ''}'']) i key mapper)"
proof (intro conjI)
  show "startswith (lines ! i) ''}'' \<longleftrightarrow>
      (\<exists>m. while_loop self_km km lines i key mapper = Inr (Tuple m (i + 1)))"
  proof
    assume c: "startswith (lines ! i) ''}''"
    then have "\<not> startswith (lines ! i) ''{''" by (auto simp: startswith_def)
    from while_loop_close[OF assms this c] show
      "\<exists>m. while_loop self_km km lines i key mapper = Inr (Tuple m (i + 1))" by blast
  next
    assume "\<exists>m. while_loop self_km km lines i key mapper = Inr (Tuple m (i + 1))"
    then obtain m where r: "while_loop self_km km lines i key mapper = Inr (Tuple m (i + 1))" ..
    show "startswith (lines ! i) ''}''"
    proof (rule ccontr)
      assume nc: "\<not> startswith (lines ! i) ''}''"
      from r assms nc show False
      proof (induction i key mapper rule: while_loop_cases_induct[of lines _ self_km km])
        case (OpenTuple i key mapper k nested j)
        from OpenTuple.prems(1) OpenTuple.hyps
        have "while_loop self_km km lines j key (setitem mapper k (Dict nested)) =
            Inr (Tuple m (i + 1))"
          by (simp add: while_loop_open)
        from while_loop_tuple_index[OF this] while_loop_tuple_index[OF OpenTuple.hyps(5)]
        show ?case by simp
      next
        case (OpenBare i key mapper k nested)
        then show ?case by (simp add: while_loop_open split: if_splits)
      next
        case (Key i key mapper k)
        from Key.prems(1) Key.hyps have
          "while_loop self_km km lines (i + 1) (Some (key_modifier self_km k km)) mapper =
            Inr (Tuple m (i + 1))"
          by (simp add: while_loop_key)
        from while_loop_tuple_index[OF this] show ?case by simp
      next
        case (KeyValue i key mapper k v)
        from KeyValue.prems(1) KeyValue.hyps have
          "while_loop self_km km lines (i + 1) key
             (setitem mapper (key_modifier self_km k km) (Str v)) = Inr (Tuple m (i + 1))"
          by (simp add: while_loop_key_value)
        from while_loop_tuple_index[OF this] show ?case by simp
      next
        case (TwoLines i key mapper r k v)
        from TwoLines.prems(1) TwoLines.hyps have
          "while_loop self_km km lines (i + 1) key
             (setitem mapper (key_modifier self_km k km) (Str v)) = Inr (Tuple m (i + 1))"
          by (simp add: while_loop_two_lines)
        from while_loop_tuple_index[OF this] show ?case by simp
      next
        case (Skip i key mapper)
        from Skip.prems(1) Skip.hyps have
          "while_loop self_km km lines (i + 1) key mapper = Inr (Tuple m (i + 1))"
          by (simp add: while_loop_skip)
        from while_loop_tuple_index[OF this] show ?case by simp
      qed (simp_all add: while_loop_end while_loop_open_no_key while_loop_open while_loop_last)
    qed
  qed
next
  show "startswith (lines ! i) ''{'' \<longleftrightarrow>
      while_loop self_km km lines i None mapper = Inl (BraceWithoutKey (i + 1))"
  proof
    assume "startswith (lines ! i) ''{''"
    from while_loop_open_no_key[OF assms this] show
      "while_loop self_km km lines i None mapper = Inl (BraceWithoutKey (i + 1))" by simp
  next
    assume r: "while_loop self_km km lines i None mapper = Inl (BraceWithoutKey (i + 1))"
    from while_loop_error_line[OF this] show "startswith (lines ! i) ''{''" by simp
  qed
next
  show "startswith (lines ! i) ''{'' \<longrightarrow>
      while_loop self_km km lines i key mapper =
        while_loop self_km km (lines[i := ''{'']) i key mapper"
  proof
    assume ob: "startswith (lines ! i) ''{''"
    let ?lines = "lines[i := ''{'']"
    have len: "i < length ?lines" using assms by simp
    have ob': "startswith (?lines ! i) ''{''" using assms by (simp add: startswith_def)
    show "while_loop self_km km lines i key mapper = while_loop self_km km ?lines i key mapper"
    proof (cases "key = None \<or> key = Some []")
      case True
      from while_loop_open_no_key[OF assms ob True] while_loop_open_no_key[OF len ob' True]
      show ?thesis by simp
    next
      case False
      then obtain k where k: "key = Some k" "k \<noteq> []" by (cases key) auto
      have nested: "while_loop self_km km ?lines (i + 1) None [] =
          while_loop self_km km lines (i + 1) None []"
        by (rule while_loop_earlier_line) simp
      show ?thesis
      proof (cases "while_loop self_km km lines (i + 1) None []")
        case (Inl e)
        with nested while_loop_open[OF assms ob k] while_loop_open[OF len ob' k]
        show ?thesis by simp
      next
        case (Inr r)
        show ?thesis
        proof (cases r)
          case (Mapper m)
          with Inr nested while_loop_open[OF assms ob k] while_loop_open[OF len ob' k]
          show ?thesis by simp
        next
          case (Tuple m j)
          with Inr while_loop_tuple_index[of self_km km lines "i + 1" None "[]" m j]
          have "i < j" by simp
          from while_loop_earlier_line[OF this]
          have "while_loop self_km km ?lines j key (setitem mapper k (Dict m)) =
              while_loop self_km km lines j key (setitem mapper k (Dict m))" .
          with Tuple Inr nested while_loop_open[OF assms ob k] while_loop_open[OF len ob' k]
          show ?thesis by simp
        qed
      qed
    qed
  qed
next
  show "startswith (lines ! i) ''}'' \<longrightarrow>
      while_loop self_km km lines i key mapper =
        while_loop self_km km (lines[i := ''}'']) i key mapper"
  proof
    assume c: "startswith (lines ! i) ''}''"
    then have no: "\<not> startswith (lines ! i) ''{''" by (auto simp: startswith_def)
    let ?lines = "lines[i := ''}'']"
    have len: "i < length ?lines" using assms by simp
    have c': "startswith (?lines ! i) ''}''" "\<not> startswith (?lines ! i) ''{''"
      using assms by (simp_all add: startswith_def)
    from while_loop_close[OF assms no c] while_loop_close[OF len c'(2) c'(1)]
    show "while_loop self_km km lines i key mapper = while_loop self_km km ?lines i key mapper"
      by simp
  qed
qed

text \<open>
  The theorem at the lines \<^verbatim>\<open>"k"\<close>, \<^verbatim>\<open>{ "a" "b"\<close>, \<^verbatim>\<open>} trailing\<close>: the second
  line opens the block of \<open>k\<close> and the third closes it.
\<close>

theorem braces_by_first_character_witness:
  "startswith ([quoted ''k'', ''{ '' @ quoted ''a'' @ '' '' @ quoted ''b'', ''} trailing''] ! 1) ''{'' \<and>
   while_loop None None [quoted ''k'', ''{ '' @ quoted ''a'' @ '' '' @ quoted ''b'', ''} trailing'']
     1 (Some ''k'') [] =
   while_loop None None
     ([quoted ''k'', ''{ '' @ quoted ''a'' @ '' '' @ quoted ''b'', ''} trailing''][1 := ''{''])
     1 (Some ''k'') [] \<and>
   while_loop None None [quoted ''k'', ''{ '' @ quoted ''a'' @ '' '' @ quoted ''b'', ''} trailing'']
     1 None [] = Inl (BraceWithoutKey (1 + 1)) \<and>
   startswith ([quoted ''k'', ''{ '' @ quoted ''a'' @ '' '' @ quoted ''b'', ''} trailing''] ! 2) ''}'' \<and>
   (\<exists>m. while_loop None None
      [quoted ''k'', ''{ '' @ quoted ''a'' @ '' '' @ quoted ''b'', ''} trailing''] 2 None [] =
      Inr (Tuple m (2 + 1))) \<and>
   KeyValues__parse None [quoted ''k'', ''{ '' @ quoted ''a'' @ '' '' @ quoted ''b'', ''} trailing'']
     0 None = Inr (Mapper [(''k'', Dict [])])"
proof -
  let ?lines = "[quoted ''k'', ''{ '' @ quoted ''a'' @ '' '' @ quoted ''b'', ''} trailing'']"
  have l1: "1 < length ?lines" and l2: "2 < length ?lines" by simp_all
  have o: "startswith (?lines ! 1) ''{''" by (simp add: startswith_def)
  have c: "startswith (?lines ! 2) ''}''" by (simp add: startswith_def)
  note at1 = braces_by_first_character[OF l1, of None None "Some ''k''" "[]"]
  note at2 = braces_by_first_character[OF l2, of None None None "[]"]
  from at1 o have a: "while_loop None None ?lines 1 (Some ''k'') [] =
      while_loop None None (?lines[1 := ''{'']) 1 (Some ''k'') []" by blast
  from at1 o have b: "while_loop None None ?lines 1 None [] = Inl (BraceWithoutKey (1 + 1))"
    by blast
  from at2 c have d: "\<exists>m. while_loop None None ?lines 2 None [] = Inr (Tuple m (2 + 1))"
    by blast
  have e: "KeyValues__parse None ?lines 0 None = Inr (Mapper [(''k'', Dict [])])"
    by (simp add: run_simps)
  from o a b c d e show ?thesis by blast
qed

subsection \<open>C10: the pattern for pairs matches a prefix\<close>

text \<open>
  Claim C10 says that for every line that begins with two quoted tokens the text after
  the closing quote of the second token is ignored and the two tokens are bound. The
  line \<^verbatim>\<open>"k" 'v' "x"\<close> begins with the tokens \<^verbatim>\<open>"k"\<close> and \<^verbatim>\<open>'v'\<close>. The pattern
  \<^verbatim>\<open>"key_value"\<close> closes the value with \<^verbatim>\<open>\1\<close>, the quote character of the key,
  so the value runs on to the next double quote: the pair bound is \<open>(k, v' )\<close>, and
  the text after the second token is not ignored.
\<close>

theorem text_after_value_changes_pair:
  "KeyValues__parse None
     [quoted ''k'' @ '' '' @ squote # ''v'' @ squote # '' '' @ quoted ''x''] 0 None =
   Inr (Mapper [(''k'', Str (''v'' @ squote # '' ''))])"
  by (simp add: run_simps)

end
